theory Spec2Isabelle
  imports
    Complex_Main
    "HOL-Library.Log_Nat"
    "HOL-Library.Char_ord"
    "HOL-Library.List_Lexorder"
begin

section \<open>The Merkle engine of the SDK (merkle/tree.ts)\<close>

text \<open>
  Hashes and hex values are JavaScript strings (\<open>0x...\<close>). The comparison \<open>a < b\<close> of the
  source is the comparison of strings by code units, a shorter prefix first: the
  lexicographic order of \<open>char list\<close>.

  \<open>keccak256\<close> and \<open>concat\<close> come from the library viem, which is no part of the
  repository: every function below takes them as its first two parameters, named
  \<open>K\<close> and \<open>C\<close>, and every theorem holds for all of them.
\<close>

type_synonym Hex = string
type_synonym Hash = string

text \<open>
  The two \<open>throw new Error(...)\<close> of the source: "Cannot build Merkle tree with no leaves" /
  "Cannot compute Merkle root with no leaves", and "Invalid leaf index: <index>".
\<close>

datatype error = EmptyInputError | IndexOutOfRangeError int

text \<open>The interface \<open>MerkleProof\<close>; its field \<open>proof\<close> is \<open>proof_hashes\<close> here.\<close>

record MerkleProof =
  leaf :: Hash
  proof_hashes :: "Hash list"
  positions :: "bool list"
  index :: int

text \<open>The interface \<open>MerkleTree\<close>: three values and the two closures.\<close>

record MerkleTree =
  root :: Hash
  leaves :: "Hash list"
  depth :: nat
  getProof :: "int \<Rightarrow> error + MerkleProof"
  verify :: "MerkleProof \<Rightarrow> bool"

subsection \<open>The pairwise combinator\<close>

definition sortAndConcat :: "(Hex list \<Rightarrow> Hex) \<Rightarrow> Hash \<Rightarrow> Hash \<Rightarrow> Hex" where
  "sortAndConcat C a b = (if a < b then C [a, b] else C [b, a])"

definition hashPair :: "(Hex \<Rightarrow> Hash) \<Rightarrow> (Hex list \<Rightarrow> Hex) \<Rightarrow> Hash \<Rightarrow> Hash \<Rightarrow> Hash" where
  "hashPair K C a b = K (sortAndConcat C a b)"

subsection \<open>One pairing round\<close>

text \<open>
  The inner loop \<open>for (let i = 0; i < currentLayer.length; i += 2)\<close>, shared by
  \<open>buildMerkleTree\<close> and \<open>computeMerkleRoot\<close>. \<open>currentLayer[i + 1] ?? left\<close> reads
  past the end of an odd layer, gets \<open>undefined\<close> and falls back to \<open>left\<close>.
\<close>

function pairLoop ::
  "(Hex \<Rightarrow> Hash) \<Rightarrow> (Hex list \<Rightarrow> Hex) \<Rightarrow> Hash list \<Rightarrow> nat \<Rightarrow> Hash list \<Rightarrow> Hash list" where
  "pairLoop K C currentLayer i nextLayer =
     (if i < length currentLayer then
        (let left = currentLayer ! i;
             right = (if i + 1 < length currentLayer then currentLayer ! (i + 1) else left)
         in pairLoop K C currentLayer (i + 2) (nextLayer @ [hashPair K C left right]))
      else nextLayer)"
  by pat_completeness auto
termination
  by (relation "measure (\<lambda>(K, C, currentLayer, i, nextLayer). length currentLayer - i)") auto

declare pairLoop.simps [simp del]

lemma length_pairLoop:
  "length (pairLoop K C cur i acc) = length acc + (length cur - i + 1) div 2"
proof (induction K C cur i acc rule: pairLoop.induct)
  case (1 K C cur i acc)
  show ?case
  proof (cases "i < length cur")
    case True
    have "length (pairLoop K C cur i acc) =
          length (pairLoop K C cur (i + 2)
            (acc @ [hashPair K C (cur ! i) (if i + 1 < length cur then cur ! (i + 1) else cur ! i)]))"
      using True by (subst pairLoop.simps) (simp add: Let_def)
    also have "\<dots> = length acc + 1 + (length cur - (i + 2) + 1) div 2"
      using "1.IH" [OF True refl refl] by simp
    also have "\<dots> = length acc + (length cur - i + 1) div 2"
      using True by presburger
    finally show ?thesis .
  next
    case False
    then show ?thesis by (subst pairLoop.simps) simp
  qed
qed

subsection \<open>Building the layers\<close>

text \<open>
  \<open>while (layers[layers.length - 1].length > 1) { ...; layers.push(nextLayer) }\<close>.
  \<open>layers\<close> starts as \<open>[workingLeaves]\<close> and only grows, so its last element exists.
\<close>

function buildLayers ::
  "(Hex \<Rightarrow> Hash) \<Rightarrow> (Hex list \<Rightarrow> Hex) \<Rightarrow> Hash list list \<Rightarrow> Hash list list" where
  "buildLayers K C layers =
     (if length (last layers) > 1
      then buildLayers K C (layers @ [pairLoop K C (last layers) 0 []])
      else layers)"
  by pat_completeness auto
termination
  by (relation "measure (\<lambda>(K, C, layers). length (last layers))")
     (auto simp: length_pairLoop)

declare buildLayers.simps [simp del]

subsection \<open>Proof generation\<close>

text \<open>
  The loop \<open>for (let i = 0; i < depth; i++)\<close> of \<open>getProof\<close>. It runs after the range
  check, so \<open>currentIndex\<close> is a natural number, on which \<open>%\<close> and
  \<open>Math.floor(_ / 2)\<close> are \<open>mod\<close> and \<open>div\<close>.
\<close>

function proofLoop ::
  "Hash list list \<Rightarrow> nat \<Rightarrow> nat \<Rightarrow> nat \<Rightarrow> Hash list \<Rightarrow> bool list \<Rightarrow> Hash list \<times> bool list" where
  "proofLoop layers d i currentIndex pf pos =
     (if i < d then
        (let layer = layers ! i;
             isRightNode = (currentIndex mod 2 = 1);
             siblingIndex = (if isRightNode then currentIndex - 1 else currentIndex + 1)
         in if siblingIndex < length layer
            then proofLoop layers d (i + 1) (currentIndex div 2)
                   (pf @ [layer ! siblingIndex]) (pos @ [\<not> isRightNode])
            else proofLoop layers d (i + 1) (currentIndex div 2)
                   (pf @ [layer ! currentIndex]) (pos @ [True]))
      else (pf, pos))"
  by pat_completeness auto
termination
  by (relation "measure (\<lambda>(layers, d, i, currentIndex, pf, pos). d - i)") auto

declare proofLoop.simps [simp del]

text \<open>The closure \<open>getProof\<close> of a tree of two leaves or more.\<close>

definition getProof_layers ::
  "Hash list \<Rightarrow> Hash list list \<Rightarrow> nat \<Rightarrow> int \<Rightarrow> error + MerkleProof" where
  "getProof_layers originalLeaves layers d idx =
     (if idx < 0 \<or> idx \<ge> int (length originalLeaves) then Inl (IndexOutOfRangeError idx)
      else (case proofLoop layers d 0 (nat idx) [] [] of
              (pf, pos) \<Rightarrow>
                Inr \<lparr>leaf = originalLeaves ! nat idx, proof_hashes = pf,
                     positions = pos, index = idx\<rparr>))"

subsection \<open>Verification\<close>

text \<open>
  The loop of \<open>verify\<close> and of \<open>verifyMerkleProof\<close> (the source has the same text twice).
  \<open>positions[i]\<close> past the end of \<open>positions\<close> is \<open>undefined\<close>, which is falsy: the
  conditional takes its second branch.
\<close>

function verifyLoop ::
  "(Hex \<Rightarrow> Hash) \<Rightarrow> (Hex list \<Rightarrow> Hex) \<Rightarrow> MerkleProof \<Rightarrow> nat \<Rightarrow> Hash \<Rightarrow> Hash" where
  "verifyLoop K C proofData i computedHash =
     (if i < length (proof_hashes proofData) then
        (let sibling = proof_hashes proofData ! i;
             isRight = (i < length (positions proofData) \<and> positions proofData ! i)
         in verifyLoop K C proofData (i + 1)
              (if isRight then hashPair K C computedHash sibling
               else hashPair K C sibling computedHash))
      else computedHash)"
  by pat_completeness auto
termination
  by (relation "measure (\<lambda>(K, C, proofData, i, computedHash). length (proof_hashes proofData) - i)")
     auto

declare verifyLoop.simps [simp del]

definition verifyMerkleProof ::
  "(Hex \<Rightarrow> Hash) \<Rightarrow> (Hex list \<Rightarrow> Hex) \<Rightarrow> Hash \<Rightarrow> MerkleProof \<Rightarrow> bool" where
  "verifyMerkleProof K C rt pf = (verifyLoop K C pf 0 (leaf pf) = rt)"

text \<open>The closure \<open>verify\<close> of a tree of two leaves or more.\<close>

definition verify_layers ::
  "(Hex \<Rightarrow> Hash) \<Rightarrow> (Hex list \<Rightarrow> Hex) \<Rightarrow> Hash \<Rightarrow> MerkleProof \<Rightarrow> bool" where
  "verify_layers K C rt proofData = (verifyLoop K C proofData 0 (leaf proofData) = rt)"

subsection \<open>buildMerkleTree and computeMerkleRoot\<close>

definition buildMerkleTree ::
  "(Hex \<Rightarrow> Hash) \<Rightarrow> (Hex list \<Rightarrow> Hex) \<Rightarrow> Hash list \<Rightarrow> error + MerkleTree" where
  "buildMerkleTree K C lvs =
     (if length lvs = 0 then Inl EmptyInputError
      else
        (let originalLeaves = lvs in
         if length lvs = 1 then
           (let rt = lvs ! 0 in
            Inr \<lparr>root = rt, leaves = originalLeaves, depth = 0,
                 getProof = (\<lambda>idx. if idx \<noteq> 0 then Inl (IndexOutOfRangeError idx)
                                   else Inr \<lparr>leaf = rt, proof_hashes = [],
                                             positions = [], index = 0\<rparr>),
                 verify = (\<lambda>p. leaf p = rt \<and> length (proof_hashes p) = 0)\<rparr>)
         else
           (let workingLeaves =
                  (if length lvs mod 2 = 1 then lvs @ [lvs ! (length lvs - 1)] else lvs);
                layers = buildLayers K C [workingLeaves];
                rt = last layers ! 0;
                d = length layers - 1
            in Inr \<lparr>root = rt, leaves = originalLeaves, depth = d,
                    getProof = getProof_layers originalLeaves layers d,
                    verify = verify_layers K C rt\<rparr>)))"

text \<open>\<open>while (currentLayer.length > 1) { ...; currentLayer = nextLayer }\<close>\<close>

function rootLoop ::
  "(Hex \<Rightarrow> Hash) \<Rightarrow> (Hex list \<Rightarrow> Hex) \<Rightarrow> Hash list \<Rightarrow> Hash list" where
  "rootLoop K C currentLayer =
     (if length currentLayer > 1
      then rootLoop K C (pairLoop K C currentLayer 0 [])
      else currentLayer)"
  by pat_completeness auto
termination
  by (relation "measure (\<lambda>(K, C, currentLayer). length currentLayer)")
     (auto simp: length_pairLoop)

declare rootLoop.simps [simp del]

definition computeMerkleRoot ::
  "(Hex \<Rightarrow> Hash) \<Rightarrow> (Hex list \<Rightarrow> Hex) \<Rightarrow> Hash list \<Rightarrow> error + Hash" where
  "computeMerkleRoot K C lvs =
     (if length lvs = 0 then Inl EmptyInputError
      else if length lvs = 1 then Inr (lvs ! 0)
      else
        (let workingLeaves =
               (if length lvs mod 2 = 1 then lvs @ [lvs ! (length lvs - 1)] else lvs);
             currentLayer = rootLoop K C workingLeaves
         in Inr (currentLayer ! 0)))"

subsection \<open>Verification of a proof value as it arrives at run time\<close>

text \<open>
  The type \<open>MerkleProof\<close> is erased at run time: \<open>verifyMerkleProof\<close> and \<open>verify\<close> read
  the properties \<open>proof\<close> and \<open>positions\<close> of whatever object they are handed, for instance
  one decoded from a message. \<open>RawProof\<close> is such an object: a property that is absent
  (or \<open>null\<close>) is \<open>None\<close>. Reading \<open>.length\<close> or \<open>[i]\<close> of an absent property throws a
  \<open>TypeError\<close>; nothing in the source catches it.
\<close>

datatype runtime_error = TypeError

record RawProof =
  raw_leaf :: Hash
  raw_proof :: "Hash list option"
  raw_positions :: "bool list option"
  raw_index :: int

text \<open>
  The same loop as \<open>verifyLoop\<close>, on a \<open>RawProof\<close>. Each round first evaluates the
  condition \<open>i < proofData.proof.length\<close>, then \<open>proofData.proof[i]\<close>, then
  \<open>proofData.positions[i]\<close>.
\<close>

function verifyLoop_raw ::
  "(Hex \<Rightarrow> Hash) \<Rightarrow> (Hex list \<Rightarrow> Hex) \<Rightarrow> RawProof \<Rightarrow> nat \<Rightarrow> Hash \<Rightarrow> runtime_error + Hash" where
  "verifyLoop_raw K C proofData i computedHash =
     (case raw_proof proofData of
        None \<Rightarrow> Inl TypeError
      | Some siblings \<Rightarrow>
          if i < length siblings then
            (case raw_positions proofData of
               None \<Rightarrow> Inl TypeError
             | Some flags \<Rightarrow>
                 (let sibling = siblings ! i;
                      isRight = (i < length flags \<and> flags ! i)
                  in verifyLoop_raw K C proofData (i + 1)
                       (if isRight then hashPair K C computedHash sibling
                        else hashPair K C sibling computedHash)))
          else Inr computedHash)"
  by pat_completeness auto
termination
  by (relation "measure (\<lambda>(K, C, proofData, i, computedHash).
        (case raw_proof proofData of None \<Rightarrow> 0 | Some siblings \<Rightarrow> length siblings - i))")
     auto

declare verifyLoop_raw.simps [simp del]

definition verifyMerkleProof_raw ::
  "(Hex \<Rightarrow> Hash) \<Rightarrow> (Hex list \<Rightarrow> Hex) \<Rightarrow> Hash \<Rightarrow> RawProof \<Rightarrow> runtime_error + bool" where
  "verifyMerkleProof_raw K C rt pv =
     (case verifyLoop_raw K C pv 0 (raw_leaf pv) of
        Inl e \<Rightarrow> Inl e
      | Inr computedHash \<Rightarrow> Inr (computedHash = rt))"

text \<open>The closure \<open>verify\<close> of a tree of two leaves or more, on a \<open>RawProof\<close>.\<close>

definition verify_layers_raw ::
  "(Hex \<Rightarrow> Hash) \<Rightarrow> (Hex list \<Rightarrow> Hex) \<Rightarrow> Hash \<Rightarrow> RawProof \<Rightarrow> runtime_error + bool" where
  "verify_layers_raw K C rt proofData =
     (case verifyLoop_raw K C proofData 0 (raw_leaf proofData) of
        Inl e \<Rightarrow> Inl e
      | Inr computedHash \<Rightarrow> Inr (computedHash = rt))"

text \<open>
  The closure \<open>verify\<close> of a single-leaf tree,
  \<open>proof.leaf === root && proof.proof.length === 0\<close>: \<open>&&\<close> does not evaluate its second
  operand when the first is false.
\<close>

definition verify_single_raw :: "Hash \<Rightarrow> RawProof \<Rightarrow> runtime_error + bool" where
  "verify_single_raw rt pv =
     (if raw_leaf pv = rt
      then (case raw_proof pv of
              None \<Rightarrow> Inl TypeError
            | Some siblings \<Rightarrow> Inr (length siblings = 0))
      else Inr False)"

text \<open>
  \<open>tree.verify(proof)\<close> on a \<open>RawProof\<close>. \<open>buildMerkleTree\<close> returns the single-leaf
  closure exactly when \<open>leaves.length === 1\<close>, and \<open>tree.leaves\<close> is a copy of that input;
  both closures capture the tree's \<open>root\<close>.
\<close>

definition verify_raw ::
  "(Hex \<Rightarrow> Hash) \<Rightarrow> (Hex list \<Rightarrow> Hex) \<Rightarrow> MerkleTree \<Rightarrow> RawProof \<Rightarrow> runtime_error + bool" where
  "verify_raw K C t pv =
     (if length (leaves t) = 1 then verify_single_raw (root t) pv
      else verify_layers_raw K C (root t) pv)"

section \<open>Auxiliary notions for the proofs\<close>

text \<open>
  The list of layers that \<open>buildLayers\<close> reaches from one layer, by direct recursion; the
  padded copy of the leaves; and the sibling path of a node, layer by layer.
\<close>

function layersFrom ::
  "(Hex \<Rightarrow> Hash) \<Rightarrow> (Hex list \<Rightarrow> Hex) \<Rightarrow> Hash list \<Rightarrow> Hash list list" where
  "layersFrom K C l =
     (if length l > 1 then l # layersFrom K C (pairLoop K C l 0 []) else [l])"
  by pat_completeness auto
termination
  by (relation "measure (\<lambda>(K, C, l). length l)") (auto simp: length_pairLoop)

declare layersFrom.simps [simp del]

definition workingLeaves :: "Hash list \<Rightarrow> Hash list" where
  "workingLeaves lvs =
     (if length lvs mod 2 = 1 then lvs @ [lvs ! (length lvs - 1)] else lvs)"

definition sibling_of :: "Hash list \<Rightarrow> nat \<Rightarrow> Hash" where
  "sibling_of layer j =
     (if (if j mod 2 = 1 then j - 1 else j + 1) < length layer
      then layer ! (if j mod 2 = 1 then j - 1 else j + 1)
      else layer ! j)"

fun sibs :: "Hash list list \<Rightarrow> nat \<Rightarrow> Hash list" where
  "sibs [] j = []"
| "sibs (l # ls) j = sibling_of l j # sibs ls (j div 2)"

text \<open>The typed proof that a \<open>RawProof\<close> with both arrays present stands for.\<close>

definition typed :: "RawProof \<Rightarrow> Hash list \<Rightarrow> bool list \<Rightarrow> MerkleProof" where
  "typed pv siblings flags =
     \<lparr>leaf = raw_leaf pv, proof_hashes = siblings, positions = flags, index = raw_index pv\<rparr>"

section \<open>Lemmas on the loops\<close>

lemma hashPair_comm: "hashPair K C a b = hashPair K C b a"
  unfolding hashPair_def sortAndConcat_def
  by (cases a b rule: linorder_cases) auto

lemma pairLoop_nth:
  "k < length acc + (length cur - i + 1) div 2 \<Longrightarrow>
   pairLoop K C cur i acc ! k =
     (if k < length acc then acc ! k
      else hashPair K C (cur ! (i + 2 * (k - length acc)))
             (if i + 2 * (k - length acc) + 1 < length cur
              then cur ! (i + 2 * (k - length acc) + 1)
              else cur ! (i + 2 * (k - length acc))))"
proof (induction K C cur i acc rule: pairLoop.induct)
  case (1 K C cur i acc)
  show ?case
  proof (cases "i < length cur")
    case True
    define h where "h = hashPair K C (cur ! i) (if i + 1 < length cur then cur ! (i + 1) else cur ! i)"
    have step: "pairLoop K C cur i acc = pairLoop K C cur (i + 2) (acc @ [h])"
      using True unfolding h_def by (subst pairLoop.simps) (simp add: Let_def)
    have bound: "k < length (acc @ [h]) + (length cur - (i + 2) + 1) div 2"
      using "1.prems" True by simp
    note IH = "1.IH" [OF True refl refl, folded h_def, OF bound]
    consider "k < length acc" | "k = length acc" | "k > length acc" by linarith
    then show ?thesis
    proof cases
      case 1
      then show ?thesis unfolding step IH by (simp add: nth_append)
    next
      case 2
      then show ?thesis unfolding step IH by (simp add: nth_append h_def)
    next
      case 3
      then have e: "i + 2 + 2 * (k - length (acc @ [h])) = i + 2 * (k - length acc)"
        by simp
      show ?thesis unfolding step IH e using 3 by simp
    qed
  next
    case False
    then show ?thesis using "1.prems" by (subst pairLoop.simps) simp
  qed
qed

lemma layersFrom_nonempty: "layersFrom K C l \<noteq> []"
  by (subst layersFrom.simps) simp

lemma buildLayers_layersFrom:
  "buildLayers K C (ls @ [l]) = ls @ layersFrom K C l"
proof (induction K C l arbitrary: ls rule: layersFrom.induct)
  case (1 K C l)
  show ?case
  proof (cases "length l > 1")
    case True
    have "buildLayers K C (ls @ [l]) = buildLayers K C ((ls @ [l]) @ [pairLoop K C l 0 []])"
      using True by (subst buildLayers.simps) simp
    also have "\<dots> = (ls @ [l]) @ layersFrom K C (pairLoop K C l 0 [])"
      by (rule "1.IH" [OF True])
    also have "\<dots> = ls @ layersFrom K C l"
      using True by (subst (2) layersFrom.simps) simp
    finally show ?thesis .
  next
    case False
    then show ?thesis
      by (subst buildLayers.simps, subst layersFrom.simps) simp
  qed
qed

lemma rootLoop_layersFrom: "rootLoop K C l = last (layersFrom K C l)"
proof (induction K C l rule: layersFrom.induct)
  case (1 K C l)
  show ?case
  proof (cases "length l > 1")
    case True
    then show ?thesis
      using "1.IH" [OF True]
      by (subst rootLoop.simps, subst layersFrom.simps) (simp add: layersFrom_nonempty)
  next
    case False
    then show ?thesis by (subst rootLoop.simps, subst layersFrom.simps) simp
  qed
qed

lemma length_layersFrom: "length (layersFrom K C l) = Suc (ceillog2 (length l))"
proof (induction K C l rule: layersFrom.induct)
  case (1 K C l)
  show ?case
  proof (cases "length l > 1")
    case True
    then show ?thesis
      using "1.IH" [OF True]
      by (subst layersFrom.simps, subst ceillog2_rec) (simp add: length_pairLoop)
  next
    case False
    then show ?thesis by (subst layersFrom.simps) simp
  qed
qed

lemma verifyLoop_foldl:
  "verifyLoop K C p i c = foldl (hashPair K C) c (drop i (proof_hashes p))"
proof (induction K C p i c rule: verifyLoop.induct)
  case (1 K C p i c)
  show ?case
  proof (cases "i < length (proof_hashes p)")
    case True
    define s where "s = proof_hashes p ! i"
    have d: "drop i (proof_hashes p) = s # drop (i + 1) (proof_hashes p)"
      using True unfolding s_def by (simp add: Cons_nth_drop_Suc)
    define c' where "c' = (if i < length (positions p) \<and> positions p ! i
                           then hashPair K C c s else hashPair K C s c)"
    have c': "c' = hashPair K C c s"
      unfolding c'_def by (simp add: hashPair_comm [of K C s c])
    have "verifyLoop K C p i c = verifyLoop K C p (i + 1) c'"
      using True unfolding s_def c'_def
      by (subst verifyLoop.simps) (simp add: Let_def)
    also have "\<dots> = foldl (hashPair K C) c' (drop (i + 1) (proof_hashes p))"
      using "1.IH" [OF True refl refl, folded s_def, folded c'_def] .
    also have "\<dots> = foldl (hashPair K C) (hashPair K C c s) (drop (i + 1) (proof_hashes p))"
      unfolding c' ..
    finally show ?thesis unfolding d by simp
  next
    case False
    then show ?thesis by (subst verifyLoop.simps) simp
  qed
qed

lemma length_sibs: "length (sibs ls j) = length ls"
  by (induction ls arbitrary: j) auto

lemma proofLoop_fst:
  "d \<le> length layers \<Longrightarrow>
   fst (proofLoop layers d i j pf pos) = pf @ sibs (take (d - i) (drop i layers)) j"
proof (induction layers d i j pf pos rule: proofLoop.induct)
  case (1 layers d i j pf pos)
  show ?case
  proof (cases "i < d")
    case True
    then have il: "i < length layers" using "1.prems" by simp
    have t: "take (d - i) (drop i layers) = layers ! i # take (d - (i + 1)) (drop (i + 1) layers)"
    proof -
      have "d - i = Suc (d - (i + 1))" using True by simp
      moreover have "drop i layers = layers ! i # drop (i + 1) layers"
        using il by (simp add: Cons_nth_drop_Suc)
      ultimately show ?thesis by simp
    qed
    show ?thesis
    proof (cases "(if j mod 2 = 1 then j - 1 else j + 1) < length (layers ! i)")
      case a: True
      have "proofLoop layers d i j pf pos =
            proofLoop layers d (i + 1) (j div 2)
              (pf @ [layers ! i ! (if j mod 2 = 1 then j - 1 else j + 1)])
              (pos @ [\<not> (j mod 2 = 1)])"
        using True a by (subst proofLoop.simps) (simp add: Let_def)
      moreover note "1.IH"(1) [OF True refl refl refl a "1.prems"]
      ultimately show ?thesis
        unfolding t using a by (simp add: sibling_of_def)
    next
      case b: False
      have "proofLoop layers d i j pf pos =
            proofLoop layers d (i + 1) (j div 2) (pf @ [layers ! i ! j]) (pos @ [True])"
        using True b by (subst proofLoop.simps) (simp add: Let_def)
      moreover note "1.IH"(2) [OF True refl refl refl b "1.prems"]
      ultimately show ?thesis
        unfolding t using b by (simp add: sibling_of_def)
    qed
  next
    case False
    then show ?thesis by (subst proofLoop.simps) simp
  qed
qed

lemma proofLoop_snd_length:
  "length (snd (proofLoop layers d i j pf pos)) = length pos + (d - i)"
proof (induction layers d i j pf pos rule: proofLoop.induct)
  case (1 layers d i j pf pos)
  show ?case
  proof (cases "i < d")
    case True
    show ?thesis
    proof (cases "(if j mod 2 = 1 then j - 1 else j + 1) < length (layers ! i)")
      case a: True
      have "proofLoop layers d i j pf pos =
            proofLoop layers d (i + 1) (j div 2)
              (pf @ [layers ! i ! (if j mod 2 = 1 then j - 1 else j + 1)])
              (pos @ [\<not> (j mod 2 = 1)])"
        using True a by (subst proofLoop.simps) (simp add: Let_def)
      then show ?thesis
        using "1.IH"(1) [OF True refl refl refl a] True by simp
    next
      case b: False
      have "proofLoop layers d i j pf pos =
            proofLoop layers d (i + 1) (j div 2) (pf @ [layers ! i ! j]) (pos @ [True])"
        using True b by (subst proofLoop.simps) (simp add: Let_def)
      then show ?thesis
        using "1.IH"(2) [OF True refl refl refl b] True by simp
    qed
  next
    case False
    then show ?thesis by (subst proofLoop.simps) simp
  qed
qed

lemma pair_parent_bound:
  assumes "j < length l"
  shows "j div 2 < length (pairLoop K C l 0 [])"
  using assms by (simp add: length_pairLoop)

lemma pair_parent_nth:
  assumes "j < length l"
  shows "pairLoop K C l 0 [] ! (j div 2) =
           hashPair K C (l ! (2 * (j div 2)))
             (if 2 * (j div 2) + 1 < length l then l ! (2 * (j div 2) + 1)
              else l ! (2 * (j div 2)))"
  using pairLoop_nth [of "j div 2" "[]" l 0 K C] pair_parent_bound [OF assms, of K C]
  by (simp add: length_pairLoop)

lemma pair_parent:
  assumes "j < length l"
  shows "hashPair K C (l ! j) (sibling_of l j) = pairLoop K C l 0 [] ! (j div 2)"
proof (cases "j mod 2 = 1")
  case True
  then obtain k where k: "j = 2 * k + 1"
    by (metis add.commute mult.commute mod_div_mult_eq)
  have s: "sibling_of l j = l ! (2 * k)"
    using assms unfolding sibling_of_def k by simp
  have "pairLoop K C l 0 [] ! k = hashPair K C (l ! (2 * k)) (l ! (2 * k + 1))"
    using pair_parent_nth [OF assms, of K C] assms unfolding k by simp
  then show ?thesis
    unfolding s unfolding k by (simp add: hashPair_comm [of K C "l ! (2 * k)"])
next
  case False
  then obtain k where k: "j = 2 * k"
    by (metis dvd_def mod2_eq_if)
  have s: "sibling_of l j = (if 2 * k + 1 < length l then l ! (2 * k + 1) else l ! (2 * k))"
    unfolding sibling_of_def k by simp
  have "pairLoop K C l 0 [] ! k =
        hashPair K C (l ! (2 * k)) (if 2 * k + 1 < length l then l ! (2 * k + 1) else l ! (2 * k))"
    using pair_parent_nth [OF assms, of K C] unfolding k by simp
  then show ?thesis
    unfolding s unfolding k by simp
qed

lemma path_to_root:
  "j < length l \<Longrightarrow>
   foldl (hashPair K C) (l ! j) (sibs (butlast (layersFrom K C l)) j) =
   last (layersFrom K C l) ! 0"
proof (induction K C l arbitrary: j rule: layersFrom.induct)
  case (1 K C l)
  show ?case
  proof (cases "length l > 1")
    case True
    define l' where "l' = pairLoop K C l 0 []"
    have lf: "layersFrom K C l = l # layersFrom K C l'"
      using True unfolding l'_def by (subst layersFrom.simps) simp
    have p: "j div 2 < length l'" "hashPair K C (l ! j) (sibling_of l j) = l' ! (j div 2)"
      unfolding l'_def
      using pair_parent_bound [OF "1.prems"] pair_parent [OF "1.prems"] by blast+
    have "foldl (hashPair K C) (l' ! (j div 2)) (sibs (butlast (layersFrom K C l')) (j div 2)) =
          last (layersFrom K C l') ! 0"
      using "1.IH" [OF True, folded l'_def, OF p(1)] .
    then show ?thesis
      unfolding lf by (simp add: layersFrom_nonempty p(2))
  next
    case False
    then have "j = 0" using "1.prems" by simp
    then show ?thesis using False by (subst (1 2) layersFrom.simps) simp
  qed
qed

lemma workingLeaves_nth: "j < length lvs \<Longrightarrow> workingLeaves lvs ! j = lvs ! j"
  by (simp add: workingLeaves_def nth_append)

lemma workingLeaves_length: "length lvs \<le> length (workingLeaves lvs)"
  by (simp add: workingLeaves_def)

lemma two_or_more: "lvs \<noteq> [] \<Longrightarrow> length lvs \<noteq> 1 \<Longrightarrow> 2 \<le> length lvs"
proof -
  assume "lvs \<noteq> []" and "length lvs \<noteq> 1"
  moreover from \<open>lvs \<noteq> []\<close> have "0 < length lvs" by simp
  ultimately show ?thesis by linarith
qed

lemma buildMerkleTree_single:
  "length lvs = 1 \<Longrightarrow>
   buildMerkleTree K C lvs =
     Inr \<lparr>root = lvs ! 0, leaves = lvs, depth = 0,
          getProof = (\<lambda>idx. if idx \<noteq> 0 then Inl (IndexOutOfRangeError idx)
                            else Inr \<lparr>leaf = lvs ! 0, proof_hashes = [],
                                      positions = [], index = 0\<rparr>),
          verify = (\<lambda>p. leaf p = lvs ! 0 \<and> length (proof_hashes p) = 0)\<rparr>"
  by (simp add: buildMerkleTree_def Let_def)

lemma buildMerkleTree_many:
  assumes "2 \<le> length lvs"
  shows "buildMerkleTree K C lvs =
     Inr \<lparr>root = last (layersFrom K C (workingLeaves lvs)) ! 0,
          leaves = lvs,
          depth = length (layersFrom K C (workingLeaves lvs)) - 1,
          getProof = getProof_layers lvs (layersFrom K C (workingLeaves lvs))
                       (length (layersFrom K C (workingLeaves lvs)) - 1),
          verify = verify_layers K C (last (layersFrom K C (workingLeaves lvs)) ! 0)\<rparr>"
proof -
  have b: "buildLayers K C [workingLeaves lvs] = layersFrom K C (workingLeaves lvs)"
    using buildLayers_layersFrom [of K C "[]" "workingLeaves lvs"] by simp
  have "length lvs \<noteq> 0" "length lvs \<noteq> 1" using assms by auto
  then show ?thesis
    unfolding buildMerkleTree_def Let_def workingLeaves_def [symmetric] b by simp
qed

lemma computeMerkleRoot_many:
  assumes "2 \<le> length lvs"
  shows "computeMerkleRoot K C lvs = Inr (last (layersFrom K C (workingLeaves lvs)) ! 0)"
proof -
  have "length lvs \<noteq> 0" "length lvs \<noteq> 1" using assms by auto
  then show ?thesis
    unfolding computeMerkleRoot_def Let_def workingLeaves_def [symmetric]
    by (simp add: rootLoop_layersFrom)
qed

lemma getProof_layers_in_range:
  assumes "0 \<le> i" "i < int (length lvs)" "d \<le> length L"
  shows "getProof_layers lvs L d i =
           Inr \<lparr>leaf = lvs ! nat i, proof_hashes = sibs (take d L) (nat i),
                positions = snd (proofLoop L d 0 (nat i) [] []), index = i\<rparr>"
proof -
  have "fst (proofLoop L d 0 (nat i) [] []) = sibs (take d L) (nat i)"
    using proofLoop_fst [OF assms(3), of 0 "nat i" "[]" "[]"] by simp
  then show ?thesis
    using assms(1,2) unfolding getProof_layers_def
    by (simp add: case_prod_beta)
qed

lemma verify_layers_foldl:
  "verify_layers K C rt p = (foldl (hashPair K C) (leaf p) (proof_hashes p) = rt)"
  by (simp add: verify_layers_def verifyLoop_foldl)

lemma verifyMerkleProof_foldl:
  "verifyMerkleProof K C rt p = (foldl (hashPair K C) (leaf p) (proof_hashes p) = rt)"
  by (simp add: verifyMerkleProof_def verifyLoop_foldl)

lemma ceillog2_workingLeaves:
  assumes "2 \<le> length lvs"
  shows "ceillog2 (length (workingLeaves lvs)) = ceillog2 (length lvs)"
proof (cases "length lvs mod 2 = 1")
  case True
  then obtain k where k: "length lvs = Suc (2 * k)"
    by (metis add.commute mult.commute mod_div_mult_eq plus_1_eq_Suc)
  then have "0 < k" using assms by simp
  have "length (workingLeaves lvs) = 2 * Suc k"
    using True k by (simp add: workingLeaves_def)
  then have "ceillog2 (length (workingLeaves lvs)) = Suc (ceillog2 (Suc k))"
    by (simp only: ceillog2_rec_even [of "Suc k"] zero_less_Suc)
  moreover have "ceillog2 (length lvs) = Suc (ceillog2 (Suc k))"
    unfolding k by (rule ceillog2_rec_odd [OF \<open>0 < k\<close>])
  ultimately show ?thesis by simp
next
  case False
  then show ?thesis by (simp add: workingLeaves_def)
qed

lemma ceillog2_int: "0 < n \<Longrightarrow> int (ceillog2 n) = \<lceil>log 2 (real n)\<rceil>"
proof -
  assume "0 < n"
  then have "0 \<le> log 2 (real n)" by simp
  then have "0 \<le> \<lceil>log 2 (real n)\<rceil>" by linarith
  then show ?thesis using \<open>0 < n\<close> by (simp add: ceillog2_def)
qed

text \<open>
  On a proof value with both arrays present the run-time functions return what the typed
  ones return; they throw exactly when an absent property is read.
\<close>

lemma verifyLoop_raw_typed:
  "raw_proof pv = Some siblings \<Longrightarrow> raw_positions pv = Some flags \<Longrightarrow>
   verifyLoop_raw K C pv i c = Inr (verifyLoop K C (typed pv siblings flags) i c)"
proof (induction K C pv i c rule: verifyLoop_raw.induct)
  case (1 K C pv i c)
  show ?case
  proof (cases "i < length siblings")
    case True
    define c' where "c' = (if i < length flags \<and> flags ! i
                           then hashPair K C c (siblings ! i) else hashPair K C (siblings ! i) c)"
    have "verifyLoop_raw K C pv i c = verifyLoop_raw K C pv (i + 1) c'"
      using True "1.prems" unfolding c'_def
      by (subst verifyLoop_raw.simps) (simp add: Let_def)
    also have "\<dots> = Inr (verifyLoop K C (typed pv siblings flags) (i + 1) c')"
      using "1.IH" [OF "1.prems"(1) True "1.prems"(2) refl refl "1.prems", folded c'_def] .
    also have "verifyLoop K C (typed pv siblings flags) (i + 1) c' =
               verifyLoop K C (typed pv siblings flags) i c"
      using True unfolding c'_def
      by (subst (2) verifyLoop.simps) (simp add: Let_def typed_def)
    finally show ?thesis .
  next
    case False
    then show ?thesis using "1.prems"
      by (subst verifyLoop_raw.simps, subst verifyLoop.simps) (simp add: typed_def)
  qed
qed

lemma verifyLoop_raw_no_siblings:
  "raw_proof pv = Some [] \<Longrightarrow> verifyLoop_raw K C pv i c = Inr c"
  by (subst verifyLoop_raw.simps) simp

lemma verifyLoop_raw_foldl:
  assumes "raw_proof pv = Some siblings" and "siblings = [] \<or> raw_positions pv \<noteq> None"
  shows "verifyLoop_raw K C pv 0 c = Inr (foldl (hashPair K C) c siblings)"
proof (cases "raw_positions pv")
  case None
  then have "siblings = []" using assms(2) by simp
  then show ?thesis using verifyLoop_raw_no_siblings [of pv K C 0 c] assms(1) by simp
next
  case (Some flags)
  show ?thesis
    unfolding verifyLoop_raw_typed [OF assms(1) Some] verifyLoop_foldl
    by (simp add: typed_def)
qed

lemma verifyLoop_raw_undefined_proof:
  "raw_proof pv = None \<Longrightarrow> verifyLoop_raw K C pv i c = Inl TypeError"
  by (subst verifyLoop_raw.simps) simp

lemma verifyLoop_raw_undefined_positions:
  "raw_proof pv = Some siblings \<Longrightarrow> i < length siblings \<Longrightarrow> raw_positions pv = None \<Longrightarrow>
   verifyLoop_raw K C pv i c = Inl TypeError"
  by (subst verifyLoop_raw.simps) simp

lemma verifyMerkleProof_raw_throws_iff:
  "(verifyMerkleProof_raw K C rt pv = Inl TypeError) =
   (raw_proof pv = None \<or>
    (\<exists>siblings. raw_proof pv = Some siblings \<and> siblings \<noteq> [] \<and> raw_positions pv = None))"
proof (cases "raw_proof pv")
  case None
  then show ?thesis
    by (simp add: verifyMerkleProof_raw_def verifyLoop_raw_undefined_proof)
next
  case (Some siblings)
  show ?thesis
  proof (cases "siblings = [] \<or> raw_positions pv \<noteq> None")
    case True
    then show ?thesis
      using Some by (auto simp: verifyMerkleProof_raw_def verifyLoop_raw_foldl [OF Some True])
  next
    case False
    then have "0 < length siblings" "raw_positions pv = None" by auto
    then show ?thesis
      using Some
      by (simp add: verifyMerkleProof_raw_def verifyLoop_raw_undefined_positions [OF Some])
  qed
qed

lemma verifyMerkleProof_raw_typed:
  "raw_proof pv = Some siblings \<Longrightarrow> raw_positions pv = Some flags \<Longrightarrow>
   verifyMerkleProof_raw K C rt pv = Inr (verifyMerkleProof K C rt (typed pv siblings flags))"
  by (simp add: verifyMerkleProof_raw_def verifyMerkleProof_def verifyLoop_raw_typed typed_def)

lemma verify_raw_typed:
  assumes "buildMerkleTree K C lvs = Inr t"
    and "raw_proof pv = Some siblings" and "raw_positions pv = Some flags"
  shows "verify_raw K C t pv = Inr (verify t (typed pv siblings flags))"
proof -
  have ne: "lvs \<noteq> []" using assms(1) by (auto simp: buildMerkleTree_def)
  show ?thesis
  proof (cases "length lvs = 1")
    case True
    then show ?thesis
      using assms unfolding buildMerkleTree_single [OF True]
      by (auto simp: verify_raw_def verify_single_raw_def typed_def)
  next
    case False
    have n: "2 \<le> length lvs" by (rule two_or_more [OF ne False])
    show ?thesis
      using assms False unfolding buildMerkleTree_many [OF n]
      by (auto simp: verify_raw_def verify_layers_raw_def verify_layers_def
            verifyLoop_raw_typed typed_def)
  qed
qed

section \<open>Properties\<close>

text \<open>
  C1. For every non-empty leaf sequence and every index \<open>i\<close> with \<open>0 \<le> i < n\<close>, the tree
  is built, \<open>getProof(i)\<close> returns a proof \<open>p\<close> with \<open>p.leaf == leaves[i]\<close>, and
  \<open>verify(p)\<close> of the same tree is true; this includes the indices whose path crosses an
  odd layer, where the sibling is the node itself.
\<close>

theorem full_coverage:
  assumes "lvs \<noteq> []" and "0 \<le> i" and "i < int (length lvs)"
  shows "\<exists>t p. buildMerkleTree K C lvs = Inr t \<and> getProof t i = Inr p \<and>
               leaf p = lvs ! nat i \<and> verify t p"
proof (cases "length lvs = 1")
  case True
  then have "i = 0" using assms by simp
  then show ?thesis
    unfolding buildMerkleTree_single [OF True] by simp
next
  case False
  have n: "2 \<le> length lvs" by (rule two_or_more [OF assms(1) False])
  define w where "w = workingLeaves lvs"
  define L where "L = layersFrom K C w"
  have d: "length L - 1 \<le> length L" by simp
  have j: "nat i < length w"
    using assms(2,3) workingLeaves_length [of lvs] unfolding w_def by linarith
  have "foldl (hashPair K C) (w ! nat i) (sibs (butlast L) (nat i)) = last L ! 0"
    unfolding L_def by (rule path_to_root [OF j])
  moreover have "w ! nat i = lvs ! nat i"
    unfolding w_def using assms(2,3) by (intro workingLeaves_nth) linarith
  ultimately have v: "foldl (hashPair K C) (lvs ! nat i) (sibs (take (length L - 1) L) (nat i)) = last L ! 0"
    by (simp add: butlast_conv_take)
  define p where "p = \<lparr>leaf = lvs ! nat i, proof_hashes = sibs (take (length L - 1) L) (nat i),
                        positions = snd (proofLoop L (length L - 1) 0 (nat i) [] []), index = i\<rparr>"
  have g: "getProof_layers lvs L (length L - 1) i = Inr p"
    unfolding p_def by (rule getProof_layers_in_range [OF assms(2,3) d])
  have vp: "verify_layers K C (last L ! 0) p"
    unfolding verify_layers_foldl using v by (simp add: p_def)
  have lp: "leaf p = lvs ! nat i" by (simp add: p_def)
  have "buildMerkleTree K C lvs =
          Inr \<lparr>root = last L ! 0, leaves = lvs, depth = length L - 1,
               getProof = getProof_layers lvs L (length L - 1),
               verify = verify_layers K C (last L ! 0)\<rparr>"
    unfolding L_def w_def by (rule buildMerkleTree_many [OF n])
  then show ?thesis using g vp lp by simp
qed

theorem full_coverage_witness:
  "[''c'', ''a'', ''b'', ''d'', ''e''] \<noteq> [] \<and> (0::int) \<le> 4 \<and>
   (4::int) < int (length [''c'', ''a'', ''b'', ''d'', ''e'']) \<and>
   (\<exists>t p. buildMerkleTree (\<lambda>x. x) concat [''c'', ''a'', ''b'', ''d'', ''e''] = Inr t \<and>
          getProof t 4 = Inr p \<and>
          leaf p = [''c'', ''a'', ''b'', ''d'', ''e''] ! nat 4 \<and> verify t p)"
  using full_coverage [where lvs = "[''c'', ''a'', ''b'', ''d'', ''e'']" and i = 4
                         and K = "\<lambda>x. x" and C = concat]
  by simp

text \<open>
  C2. For every non-empty leaf sequence the root-only computation agrees with the full
  build: \<open>buildMerkleTree(leaves).root == computeMerkleRoot(leaves)\<close>.
\<close>

theorem root_equivalence:
  assumes "lvs \<noteq> []"
  shows "\<exists>t. buildMerkleTree K C lvs = Inr t \<and> computeMerkleRoot K C lvs = Inr (root t)"
proof (cases "length lvs = 1")
  case True
  then show ?thesis
    unfolding buildMerkleTree_single [OF True] by (simp add: computeMerkleRoot_def)
next
  case False
  have n: "2 \<le> length lvs" by (rule two_or_more [OF assms False])
  show ?thesis
    unfolding buildMerkleTree_many [OF n] computeMerkleRoot_many [OF n] by simp
qed

theorem root_equivalence_witness:
  "[''c'', ''a'', ''b''] \<noteq> [] \<and>
   (\<exists>t. buildMerkleTree (\<lambda>x. x) concat [''c'', ''a'', ''b''] = Inr t \<and>
        computeMerkleRoot (\<lambda>x. x) concat [''c'', ''a'', ''b''] = Inr (root t))"
  using root_equivalence [where lvs = "[''c'', ''a'', ''b'']" and K = "\<lambda>x. x" and C = concat]
  by simp

text \<open>
  C3. For every two hash values \<open>a\<close> and \<open>b\<close>, \<open>hashPair(a, b) == hashPair(b, a)\<close>:
  the smaller one is placed first in the concatenation before hashing.
\<close>

theorem hashPair_commutative:
  "hashPair K C a b = hashPair K C b a"
  unfolding hashPair_def sortAndConcat_def
  by (cases a b rule: linorder_cases) auto

text \<open>
  C4. For \<open>n\<close> leaves the depth of the tree is \<open>ceil(log2(n))\<close>; for \<open>n = 1\<close> it is 0
  (which is \<open>ceil(log2(1))\<close> as well, so one equation covers every \<open>n \<ge> 1\<close>).
\<close>

theorem depth_law:
  assumes "lvs \<noteq> []"
  shows "\<exists>t. buildMerkleTree K C lvs = Inr t \<and>
             int (depth t) = \<lceil>log 2 (real (length lvs))\<rceil> \<and>
             (length lvs = 1 \<longrightarrow> depth t = 0)"
proof (cases "length lvs = 1")
  case True
  then show ?thesis
    unfolding buildMerkleTree_single [OF True] by simp
next
  case False
  have n: "2 \<le> length lvs" by (rule two_or_more [OF assms False])
  have "length (layersFrom K C (workingLeaves lvs)) - 1 = ceillog2 (length lvs)"
    by (simp add: length_layersFrom ceillog2_workingLeaves [OF n])
  moreover have "int (ceillog2 (length lvs)) = \<lceil>log 2 (real (length lvs))\<rceil>"
    using assms by (intro ceillog2_int) simp
  ultimately show ?thesis
    unfolding buildMerkleTree_many [OF n] using False by simp
qed

theorem depth_law_witness:
  "[''c'', ''a'', ''b''] \<noteq> [] \<and>
   (\<exists>t. buildMerkleTree (\<lambda>x. x) concat [''c'', ''a'', ''b''] = Inr t \<and>
        int (depth t) = \<lceil>log 2 (real (length [''c'', ''a'', ''b'']))\<rceil> \<and>
        (length [''c'', ''a'', ''b''] = 1 \<longrightarrow> depth t = 0)) \<and>
   [''c''] \<noteq> [] \<and> length [''c''] = 1 \<and>
   (\<exists>t. buildMerkleTree (\<lambda>x. x) concat [''c''] = Inr t \<and>
        int (depth t) = \<lceil>log 2 (real (length [''c'']))\<rceil> \<and>
        (length [''c''] = 1 \<longrightarrow> depth t = 0))"
  using depth_law [where lvs = "[''c'', ''a'', ''b'']" and K = "\<lambda>x. x" and C = concat]
        depth_law [where lvs = "[''c'']" and K = "\<lambda>x. x" and C = concat]
  by simp

text \<open>
  C5. For a single hash \<open>h\<close>: \<open>buildMerkleTree([h]).root == h\<close>, \<open>getProof(0)\<close> has
  empty sibling and position lists, and that proof verifies against the root \<open>h\<close>, with
  \<open>verifyMerkleProof\<close> and with the tree's own \<open>verify\<close>.
\<close>

theorem single_leaf_identity:
  "\<exists>t p. buildMerkleTree K C [h] = Inr t \<and> root t = h \<and> depth t = 0 \<and>
         getProof t 0 = Inr p \<and> leaf p = h \<and> proof_hashes p = [] \<and> positions p = [] \<and>
         verifyMerkleProof K C h p \<and> verify t p"
proof -
  have "verifyLoop K C \<lparr>leaf = h, proof_hashes = [], positions = [], index = 0\<rparr> 0 h = h"
    by (subst verifyLoop.simps) simp
  then show ?thesis
    by (simp add: buildMerkleTree_def verifyMerkleProof_def)
qed

text \<open>
  C6. \<open>buildMerkleTree\<close> and \<open>computeMerkleRoot\<close> fail, with the empty-input error, exactly
  on the empty leaf sequence; on every other sequence both return a result.
\<close>

theorem empty_input_error:
  "(lvs = [] \<longrightarrow> buildMerkleTree K C lvs = Inl EmptyInputError \<and>
                  computeMerkleRoot K C lvs = Inl EmptyInputError) \<and>
   (lvs \<noteq> [] \<longrightarrow> (\<exists>t. buildMerkleTree K C lvs = Inr t) \<and>
                  (\<exists>r. computeMerkleRoot K C lvs = Inr r))"
  by (simp add: buildMerkleTree_def computeMerkleRoot_def Let_def)

theorem empty_input_error_witness:
  "buildMerkleTree (\<lambda>x. x) concat [] = Inl EmptyInputError \<and>
   computeMerkleRoot (\<lambda>x. x) concat [] = Inl EmptyInputError \<and>
   [''c'', ''a''] \<noteq> [] \<and>
   (\<exists>t. buildMerkleTree (\<lambda>x. x) concat [''c'', ''a''] = Inr t) \<and>
   (\<exists>r. computeMerkleRoot (\<lambda>x. x) concat [''c'', ''a''] = Inr r)"
  using empty_input_error [where lvs = "[]" and K = "\<lambda>x. x" and C = concat]
        empty_input_error [where lvs = "[''c'', ''a'']" and K = "\<lambda>x. x" and C = concat]
  by simp

text \<open>
  C7. For a tree built from \<open>n\<close> leaves and every integer \<open>i\<close>, \<open>getProof(i)\<close> fails with
  the index error exactly when \<open>i < 0\<close> or \<open>i \<ge> n\<close>, and returns a proof otherwise. \<open>n\<close> is
  the number of original leaves: the index of the duplicate appended to an odd sequence
  is refused.
\<close>

theorem getProof_index_range:
  assumes "lvs \<noteq> []"
  shows "\<exists>t. buildMerkleTree K C lvs = Inr t \<and>
             (\<forall>i. (getProof t i = Inl (IndexOutOfRangeError i)) = (i < 0 \<or> int (length lvs) \<le> i)) \<and>
             (\<forall>i. (\<exists>p. getProof t i = Inr p) = (0 \<le> i \<and> i < int (length lvs)))"
proof (cases "length lvs = 1")
  case True
  then show ?thesis
    unfolding buildMerkleTree_single [OF True] by auto
next
  case False
  have n: "2 \<le> length lvs" by (rule two_or_more [OF assms False])
  show ?thesis
    unfolding buildMerkleTree_many [OF n]
    by (auto simp: getProof_layers_def split: prod.splits)
qed

theorem getProof_index_range_witness:
  "[''c'', ''a'', ''b''] \<noteq> [] \<and>
   (\<exists>t. buildMerkleTree (\<lambda>x. x) concat [''c'', ''a'', ''b''] = Inr t \<and>
        getProof t 3 = Inl (IndexOutOfRangeError 3) \<and>
        getProof t (- 1) = Inl (IndexOutOfRangeError (- 1)) \<and>
        (\<exists>p. getProof t 2 = Inr p))"
proof -
  have ne: "[''c'', ''a'', ''b''] \<noteq> []" by simp
  obtain t where t: "buildMerkleTree (\<lambda>x. x) concat [''c'', ''a'', ''b''] = Inr t"
    and a: "\<forall>i. (getProof t i = Inl (IndexOutOfRangeError i)) = (i < 0 \<or> int (length [''c'', ''a'', ''b'']) \<le> i)"
    and b: "\<forall>i. (\<exists>p. getProof t i = Inr p) = (0 \<le> i \<and> i < int (length [''c'', ''a'', ''b'']))"
    using getProof_index_range [OF ne, of "\<lambda>x. x" concat] by blast
  have "getProof t 3 = Inl (IndexOutOfRangeError 3)" using a by simp
  moreover have "getProof t (- 1) = Inl (IndexOutOfRangeError (- 1))" using a by simp
  moreover have "\<exists>p. getProof t 2 = Inr p" using b by simp
  ultimately show ?thesis using t ne by blast
qed

text \<open>
  C8. The \<open>leaves\<close> of a built tree are the input sequence, same elements, same order,
  same length, whether or not a layer was padded during construction.
\<close>

theorem leaves_preserved:
  assumes "lvs \<noteq> []"
  shows "\<exists>t. buildMerkleTree K C lvs = Inr t \<and> leaves t = lvs \<and>
             length (leaves t) = length lvs"
  using assms by (simp add: buildMerkleTree_def Let_def)

theorem leaves_preserved_witness:
  "[''c'', ''a'', ''b''] \<noteq> [] \<and>
   (\<exists>t. buildMerkleTree (\<lambda>x. x) concat [''c'', ''a'', ''b''] = Inr t \<and>
        leaves t = [''c'', ''a'', ''b''] \<and> length (leaves t) = length [''c'', ''a'', ''b''])"
  using leaves_preserved [where lvs = "[''c'', ''a'', ''b'']" and K = "\<lambda>x. x" and C = concat]
  by simp




text \<open>
  C10. The verdict does not depend on the position flags or on the index field: two
  proofs with the same leaf and the same sibling list get the same answer from
  \<open>verifyMerkleProof\<close>, for every root, and from \<open>verify\<close> of every tree.
\<close>

theorem positions_advisory:
  assumes "leaf p = leaf q" and "proof_hashes p = proof_hashes q" and "lvs \<noteq> []"
  shows "verifyMerkleProof K C rt p = verifyMerkleProof K C rt q \<and>
         (\<exists>t. buildMerkleTree K C lvs = Inr t \<and> verify t p = verify t q)"
proof (cases "length lvs = 1")
  case True
  then show ?thesis
    unfolding buildMerkleTree_single [OF True] using assms(1,2)
    by (simp add: verifyMerkleProof_foldl)
next
  case False
  have n: "2 \<le> length lvs" by (rule two_or_more [OF assms(3) False])
  show ?thesis
    unfolding buildMerkleTree_many [OF n] using assms(1,2)
    by (simp add: verifyMerkleProof_foldl verify_layers_foldl)
qed

theorem positions_advisory_witness:
  "leaf \<lparr>leaf = ''c'', proof_hashes = [''a''], positions = [True], index = 0\<rparr> =
     leaf \<lparr>leaf = ''c'', proof_hashes = [''a''], positions = [False, False], index = 5\<rparr> \<and>
   proof_hashes \<lparr>leaf = ''c'', proof_hashes = [''a''], positions = [True], index = 0\<rparr> =
     proof_hashes \<lparr>leaf = ''c'', proof_hashes = [''a''], positions = [False, False], index = 5\<rparr> \<and>
   [''c'', ''a''] \<noteq> [] \<and>
   verifyMerkleProof (\<lambda>x. x) concat ''ac''
       \<lparr>leaf = ''c'', proof_hashes = [''a''], positions = [True], index = 0\<rparr> =
     verifyMerkleProof (\<lambda>x. x) concat ''ac''
       \<lparr>leaf = ''c'', proof_hashes = [''a''], positions = [False, False], index = 5\<rparr> \<and>
   (\<exists>t. buildMerkleTree (\<lambda>x. x) concat [''c'', ''a''] = Inr t \<and>
        verify t \<lparr>leaf = ''c'', proof_hashes = [''a''], positions = [True], index = 0\<rparr> =
        verify t \<lparr>leaf = ''c'', proof_hashes = [''a''], positions = [False, False], index = 5\<rparr>)"
proof -
  have l: "leaf \<lparr>leaf = ''c'', proof_hashes = [''a''], positions = [True], index = 0\<rparr> =
           leaf \<lparr>leaf = ''c'', proof_hashes = [''a''], positions = [False, False], index = 5\<rparr>"
    by simp
  have s: "proof_hashes \<lparr>leaf = ''c'', proof_hashes = [''a''], positions = [True], index = 0\<rparr> =
           proof_hashes \<lparr>leaf = ''c'', proof_hashes = [''a''], positions = [False, False], index = 5\<rparr>"
    by simp
  have ne: "[''c'', ''a''] \<noteq> []" by simp
  show ?thesis
    using l s ne positions_advisory [OF l s ne, of "\<lambda>x. x" concat "''ac''"]
    by blast
qed

end
